theory Spec2Isabelle
  imports Main "HOL-Library.AList"
begin

section \<open>Data model\<close>

text \<open>
  A tree node as the frontend holds it (\<^verbatim>\<open>src/frontend/src/utils/fileHelpers.js\<close>,
  \<^verbatim>\<open>src/frontend/src/App.jsx\<close>): a JavaScript object with the fields \<^verbatim>\<open>id\<close>,
  \<^verbatim>\<open>name\<close>, \<^verbatim>\<open>type\<close>, \<^verbatim>\<open>children\<close>, \<^verbatim>\<open>content\<close> and \<^verbatim>\<open>isOpen\<close>.
  The last three may be absent (\<^verbatim>\<open>undefined\<close>), which is \<open>None\<close> here; an empty
  \<^verbatim>\<open>children\<close> array is \<open>Some []\<close> and is truthy in JavaScript, unlike \<^verbatim>\<open>undefined\<close>.
  The field \<^verbatim>\<open>type\<close> is one of the two strings \<^verbatim>\<open>'file'\<close> and \<^verbatim>\<open>'folder'\<close>.
  A JavaScript string is a sequence of UTF-16 code units. The tree code compares
  strings for equality, searches one in another and maps them to lower case, and
  nothing else, so the type of code units is left open: a string is a \<open>'c list\<close>,
  and every theorem holds for 16-bit units as for any other. The examples are written
  with ASCII strings (\<open>'c\<close> is \<open>char\<close>).
\<close>

datatype ntype = File | Folder

datatype 'c node = Node (nid: "'c list") (name: "'c list") (ntype: ntype)
  (children: "'c node list option") (content: "'c list option") (isOpen: "bool option")

text \<open>A tree is the ordered sequence of its root nodes: \<open>'c node list\<close>.\<close>

subsection \<open>JavaScript strings and Map\<close>

text \<open>
  \<^verbatim>\<open>String.prototype.toLowerCase\<close> is a built-in of the language, not code of this
  repository, and its Unicode case mapping is not a function of single code units. The
  mapping is therefore a parameter, \<open>lower\<close>, of everything that calls it: a theorem
  about \<open>filterNodes lower\<close> holds for the mapping JavaScript implements, whatever it
  does to a letter. Only one fact of the built-in is fixed here: the empty string is
  mapped to itself.
\<close>

definition toLowerCase :: "('c list \<Rightarrow> 'c list) \<Rightarrow> 'c list \<Rightarrow> 'c list" where
  "toLowerCase lower s = (case s of [] \<Rightarrow> [] | _ # _ \<Rightarrow> lower s)"

text \<open>
  \<^verbatim>\<open>String.prototype.includes\<close>: the argument occurs as a contiguous run of code
  units, at the first position or at a later one.
\<close>

fun includes_str :: "'c list \<Rightarrow> 'c list \<Rightarrow> bool" where
  "includes_str [] t = (t = [])"
| "includes_str (c # s) t = (take (length t) (c # s) = t \<or> includes_str s t)"

text \<open>
  A JavaScript \<^verbatim>\<open>Map\<close> iterates in insertion order, and \<^verbatim>\<open>set\<close> on a key that is
  present replaces the value where the key stands. That is an association list with
  \<^const>\<open>AList.update\<close>; \<^verbatim>\<open>get\<close> is \<^const>\<open>map_of\<close> and \<^verbatim>\<open>has\<close> is membership
  of the key list.
\<close>

type_synonym ('k, 'v) js_map = "('k \<times> 'v) list"

definition has :: "('k, 'v) js_map \<Rightarrow> 'k \<Rightarrow> bool" where
  "has m k = (k \<in> set (map fst m))"

section \<open>Tree operations (fileHelpers.js)\<close>

text \<open>
  \<^verbatim>\<open>updateFileContent\<close>: \<^verbatim>\<open>nodes.map\<close> with three cases in the source's order: the id
  matches (content replaced, children not visited), the node has children (they are
  rewritten), anything else (the node is returned as it is).
\<close>

fun updateFileContent :: "'c node list \<Rightarrow> 'c list \<Rightarrow> 'c list \<Rightarrow> 'c node list" where
  "updateFileContent [] fileId newContent = []"
| "updateFileContent (Node i nm ty ch co op # nodes) fileId newContent =
     (if i = fileId then Node i nm ty ch (Some newContent) op
      else (case ch of
              Some cs \<Rightarrow> Node i nm ty (Some (updateFileContent cs fileId newContent)) co op
            | None \<Rightarrow> Node i nm ty ch co op))
     # updateFileContent nodes fileId newContent"

text \<open>
  \<^verbatim>\<open>filterNodes\<close>: the \<^verbatim>\<open>reduce\<close> pushes zero or one node per input node onto the
  accumulator, so the result is the concatenation of these contributions in order.
  \<^verbatim>\<open>node.children || []\<close> is the children, or the empty list when they are absent.
  The first argument is the case mapping behind \<^verbatim>\<open>toLowerCase\<close>.
\<close>

fun filterNodes :: "('c list \<Rightarrow> 'c list) \<Rightarrow> 'c node list \<Rightarrow> 'c list \<Rightarrow> 'c node list" where
  "filterNodes lower [] term = []"
| "filterNodes lower (Node i nm ty ch co op # nodes) term =
     (if ty = File \<and> includes_str (toLowerCase lower nm) (toLowerCase lower term)
      then [Node i nm ty ch co op]
      else if ty = Folder then
        (let filteredChildren =
               (case ch of
                  Some cs \<Rightarrow> filterNodes lower cs term
                | None \<Rightarrow> filterNodes lower [] term)
         in if filteredChildren \<noteq> []
               \<or> includes_str (toLowerCase lower nm) (toLowerCase lower term)
            then [Node i nm ty (Some filteredChildren) co (Some True)]
            else [])
      else [])
     @ filterNodes lower nodes term"

text \<open>\<^verbatim>\<open>findNodeById\<close>: depth first, the first match wins; \<open>None\<close> is \<^verbatim>\<open>null\<close>.\<close>

fun findNodeById :: "'c node list \<Rightarrow> 'c list \<Rightarrow> 'c node option" where
  "findNodeById [] ident = None"
| "findNodeById (Node i nm ty ch co op # nodes) ident =
     (if i = ident then Some (Node i nm ty ch co op)
      else (case ch of
              Some cs \<Rightarrow>
                (case findNodeById cs ident of
                   Some found \<Rightarrow> Some found
                 | None \<Rightarrow> findNodeById nodes ident)
            | None \<Rightarrow> findNodeById nodes ident))"

text \<open>
  \<^verbatim>\<open>mergeTreeContent\<close>: \<^verbatim>\<open>traverseOld\<close> fills the closure's \<^verbatim>\<open>contentMap\<close> (passed
  and returned here), \<^verbatim>\<open>applyContent\<close> copies every node of the new tree and sets the
  content of each node whose id is a key of the map, whatever the node's type.
\<close>

fun traverseOld :: "'c node list \<Rightarrow> ('c list, 'c list) js_map \<Rightarrow> ('c list, 'c list) js_map" where
  "traverseOld [] contentMap = contentMap"
| "traverseOld (Node i nm ty ch co op # nodes) contentMap =
     (let m1 = (case co of
                  Some c \<Rightarrow> if ty = File then AList.update i c contentMap else contentMap
                | None \<Rightarrow> contentMap);
          m2 = (case ch of Some cs \<Rightarrow> traverseOld cs m1 | None \<Rightarrow> m1)
      in traverseOld nodes m2)"

fun applyContent :: "('c list, 'c list) js_map \<Rightarrow> 'c node list \<Rightarrow> 'c node list" where
  "applyContent contentMap [] = []"
| "applyContent contentMap (Node i nm ty ch co op # nodes) =
     Node i nm ty
       (case ch of Some cs \<Rightarrow> Some (applyContent contentMap cs) | None \<Rightarrow> None)
       (if has contentMap i then map_of contentMap i else co)
       op
     # applyContent contentMap nodes"

definition mergeTreeContent :: "'c node list \<Rightarrow> 'c node list \<Rightarrow> 'c node list" where
  "mergeTreeContent oldNodes newNodes = applyContent (traverseOld oldNodes []) newNodes"

text \<open>
  \<^verbatim>\<open>flattenFiles\<close>: one \<^verbatim>\<open>forEach\<close> pass that sets the entry of a node only when its
  type is \<^verbatim>\<open>'file'\<close> and then descends into the children with the same map.
\<close>

fun flattenFiles :: "'c node list \<Rightarrow> ('c list, 'c node) js_map \<Rightarrow> ('c list, 'c node) js_map" where
  "flattenFiles [] m = m"
| "flattenFiles (Node i nm ty ch co op # nodes) m =
     (let m1 = (if ty = File then AList.update i (Node i nm ty ch co op) m else m);
          m2 = (case ch of Some cs \<Rightarrow> flattenFiles cs m1 | None \<Rightarrow> m1)
      in flattenFiles nodes m2)"

section \<open>Application state and handlers (App.jsx)\<close>

text \<open>
  The part of the component state the synchronisation logic reads and writes. React
  state cells and the refs that mirror them are one field each: \<open>fileToSave\<close> is
  \<^verbatim>\<open>fileToSaveRef.current\<close>, the pending-save slot \<^verbatim>\<open>{id, content}\<close> or \<^verbatim>\<open>null\<close>.
  The event loop is single threaded, so a handler is a function from state to state;
  the HTTP requests it issues are returned beside the state, in the order issued.
\<close>

datatype role = Agent | User

record 'c message =
  mid :: nat
  mrole :: role
  mtext :: "'c list"
  isStreaming :: "bool option"

record 'c app_state =
  files :: "'c node list"
  openFiles :: "'c list list"
  activeFileId :: "'c list option"
  fileToSave :: "('c list \<times> 'c list) option"
  messages :: "'c message list"
  isProcessing :: bool

datatype 'c request = GetFiles | GetContent "'c list"

datatype error = TypeError

text \<open>
  \<^verbatim>\<open>fetchFileContent\<close>, from the arrival of the response on: \<open>data_content\<close> is
  \<^verbatim>\<open>data.content\<close>, \<open>None\<close> when it is \<^verbatim>\<open>undefined\<close>. The local \<^verbatim>\<open>updateNodeContent\<close>
  is a second copy of the three-case map of \<^verbatim>\<open>updateFileContent\<close>.
\<close>

fun updateNodeContent :: "'c list \<Rightarrow> 'c list \<Rightarrow> 'c node list \<Rightarrow> 'c node list" where
  "updateNodeContent fileId data_content [] = []"
| "updateNodeContent fileId data_content (Node i nm ty ch co op # nodes) =
     (if i = fileId then Node i nm ty ch (Some data_content) op
      else (case ch of
              Some cs \<Rightarrow> Node i nm ty (Some (updateNodeContent fileId data_content cs)) co op
            | None \<Rightarrow> Node i nm ty ch co op))
     # updateNodeContent fileId data_content nodes"

definition fetchFileContent :: "'c list \<Rightarrow> 'c list option \<Rightarrow> 'c app_state \<Rightarrow> 'c app_state" where
  "fetchFileContent fileId data_content s =
     (case data_content of
        Some c \<Rightarrow> s\<lparr>files := updateNodeContent fileId c (files s)\<rparr>
      | None \<Rightarrow> s)"

text \<open>
  \<^verbatim>\<open>fetchFileTree\<close>, from the arrival of the response on. The response is a tree, or
  something falsy or carrying \<^verbatim>\<open>error\<close>, for which nothing happens. \<open>newFileIds\<close> is
  the loop over the new index in insertion order; \<open>pushNew\<close> is the
  \<^verbatim>\<open>setOpenFiles\<close> updater. The callbacks given to \<^verbatim>\<open>setTimeout\<close> run after the
  merged tree is committed; the content requests they issue are returned.
\<close>

datatype 'c tree_response = TreeShape "'c node list" | TreeError

definition newFileIds :: "('c list, 'c node) js_map \<Rightarrow> ('c list, 'c node) js_map \<Rightarrow> 'c list list" where
  "newFileIds prevMap newMap =
     map fst (filter (\<lambda>(i, n). \<not> has prevMap i \<and> ntype n = File) newMap)"

definition pushNew :: "'c list list \<Rightarrow> 'c list list \<Rightarrow> 'c list list" where
  "pushNew ids prev = fold (\<lambda>i updated. if i \<in> set updated then updated else updated @ [i]) ids prev"

definition fetchFileTree :: "'c tree_response \<Rightarrow> 'c app_state \<Rightarrow> 'c app_state \<times> 'c request list" where
  "fetchFileTree resp s =
     (case resp of
        TreeError \<Rightarrow> (s, [])
      | TreeShape newTree \<Rightarrow>
          (let prevFiles = files s;
               prevMap = flattenFiles prevFiles [];
               newMap = flattenFiles newTree [];
               s1 = s\<lparr>files := mergeTreeContent prevFiles newTree\<rparr>
           in if prevFiles \<noteq> [] then
                (let ids = newFileIds prevMap newMap
                 in if ids \<noteq> [] then
                      (s1\<lparr>openFiles := pushNew ids (openFiles s1),
                          activeFileId := Some (last ids)\<rparr>,
                       [GetContent (last ids)])
                    else (s1, []))
              else
                (case activeFileId s of
                   Some activeId \<Rightarrow>
                     if activeId \<noteq> [] \<and> fileToSave s = None \<and> has newMap activeId
                     then (s1, [GetContent activeId])
                     else (s1, [])
                 | None \<Rightarrow> (s1, []))))"

text \<open>
  The \<^verbatim>\<open>onmessage\<close> handler of the live channel. An inbound payload that parsed is a
  \<open>ws_data\<close>: \<^verbatim>\<open>type\<close>, \<^verbatim>\<open>event\<close> and \<^verbatim>\<open>text\<close>, the last two possibly absent.
  \<open>now\<close> is the value of \<^verbatim>\<open>Date.now()\<close>. \<^verbatim>\<open>String(data.text || '')\<close> is the text, or
  the empty string when it is absent. The chunk updater reads \<^verbatim>\<open>prev[prev.length - 1]\<close>
  and then its \<^verbatim>\<open>role\<close>: on an empty sequence that is a \<^verbatim>\<open>TypeError\<close>.
\<close>

record 'c ws_data =
  dtype :: string
  devent :: "string option"
  dtext :: "'c list option"

definition textOf :: "'c ws_data \<Rightarrow> 'c list" where
  "textOf d = (case dtext d of Some t \<Rightarrow> t | None \<Rightarrow> [])"

definition chunkUpdate :: "nat \<Rightarrow> 'c list \<Rightarrow> 'c message list \<Rightarrow> error + 'c message list" where
  "chunkUpdate now newText prev =
     (if prev = [] then Inl TypeError
      else (let lastMsg = last prev
            in if mrole lastMsg = Agent \<and> isStreaming lastMsg = Some True
               then Inr (butlast prev @ [lastMsg\<lparr>mtext := mtext lastMsg @ newText\<rparr>])
               else Inr (prev @ [\<lparr>mid = now, mrole = Agent, mtext = newText,
                                  isStreaming = Some True\<rparr>])))"

definition finalUpdate :: "nat \<Rightarrow> 'c list \<Rightarrow> 'c message list \<Rightarrow> 'c message list" where
  "finalUpdate now t prev = prev @ [\<lparr>mid = now, mrole = Agent, mtext = t, isStreaming = None\<rparr>]"

definition onmessage :: "nat \<Rightarrow> 'c ws_data \<Rightarrow> 'c app_state \<Rightarrow> error + ('c app_state \<times> 'c request list)" where
  "onmessage now d s =
     (if dtype d = ''system_event'' \<and> devent d = Some ''file_change'' then
        (let filesToRefresh = openFiles s;
             editingId = map_option fst (fileToSave s)
         in Inr (s, GetFiles # map GetContent (filter (\<lambda>i. Some i \<noteq> editingId) filesToRefresh)))
      else if dtype d \<in> set [''agent_response'', ''agent_chunk'', ''agent_error''] then
        (if dtype d = ''agent_chunk'' then
           (case chunkUpdate now (textOf d) (messages s) of
              Inl e \<Rightarrow> Inl e
            | Inr ms \<Rightarrow> Inr (s\<lparr>messages := ms\<rparr>, []))
         else Inr (s\<lparr>messages := finalUpdate now (textOf d) (messages s),
                     isProcessing := False\<rparr>, []))
      else Inr (s, []))"

section \<open>Notions the properties are stated with\<close>

text \<open>
  All nodes of a tree in depth-first pre-order, the order every traversal of the
  source visits them in; the ids of a tree; the id-uniqueness invariant and the
  file/folder invariant of the data model.
\<close>

fun nodes_of :: "'c node list \<Rightarrow> 'c node list" where
  "nodes_of [] = []"
| "nodes_of (Node i nm ty ch co op # ns) =
     Node i nm ty ch co op # (case ch of Some cs \<Rightarrow> nodes_of cs | None \<Rightarrow> []) @ nodes_of ns"

definition ids_of :: "'c node list \<Rightarrow> 'c list list" where
  "ids_of t = map nid (nodes_of t)"

definition unique_ids :: "'c node list \<Rightarrow> bool" where
  "unique_ids t = distinct (ids_of t)"

definition node_ok :: "'c node \<Rightarrow> bool" where
  "node_ok n = (case ntype n of File \<Rightarrow> children n = None | Folder \<Rightarrow> content n = None)"

definition tree_ok :: "'c node list \<Rightarrow> bool" where
  "tree_ok t = list_all node_ok (nodes_of t)"

text \<open>The half of the file/folder invariant the search filter depends on.\<close>

definition file_is_leaf :: "'c node \<Rightarrow> bool" where
  "file_is_leaf n = (case ntype n of File \<Rightarrow> children n = None | Folder \<Rightarrow> True)"

definition files_are_leaves :: "'c node list \<Rightarrow> bool" where
  "files_are_leaves t = list_all file_is_leaf (nodes_of t)"

text \<open>
  \<open>withContent n c\<close> is the object \<^verbatim>\<open>{ ...n, content: c }\<close>. \<open>shape_of\<close> forgets every
  content field and keeps everything else (ids, names, types, flags, nesting and order).
\<close>

definition withContent :: "'c node \<Rightarrow> 'c list \<Rightarrow> 'c node" where
  "withContent n c = Node (nid n) (name n) (ntype n) (children n) (Some c) (isOpen n)"

fun shape_of :: "'c node list \<Rightarrow> 'c node list" where
  "shape_of [] = []"
| "shape_of (Node i nm ty ch co op # ns) =
     Node i nm ty (case ch of Some cs \<Rightarrow> Some (shape_of cs) | None \<Rightarrow> None) None op
     # shape_of ns"

text \<open>
  What \<^verbatim>\<open>updateFileContent\<close> with id \<open>fileId\<close> may change between a node \<open>n\<close> and
  the node \<open>n'\<close> at the same position of the result: nothing but the content, and
  the content only when the id of \<open>n\<close> is \<open>fileId\<close>.
\<close>

definition kept_by_update :: "'c list \<Rightarrow> 'c node \<Rightarrow> 'c node \<Rightarrow> bool" where
  "kept_by_update fileId n n' =
     (nid n' = nid n \<and> name n' = name n \<and> ntype n' = ntype n \<and> isOpen n' = isOpen n
      \<and> (nid n \<noteq> fileId \<longrightarrow> content n' = content n))"

text \<open>
  One step of each traversal on one node: what \<^verbatim>\<open>traverseOld\<close> does to the content
  map at a node, what \<^verbatim>\<open>flattenFiles\<close> does to the index at a node, and the content
  \<^verbatim>\<open>applyContent\<close> leaves in a node.
\<close>

definition noteContent :: "'c node \<Rightarrow> ('c list, 'c list) js_map \<Rightarrow> ('c list, 'c list) js_map" where
  "noteContent n cm =
     (case content n of
        Some c \<Rightarrow> if ntype n = File then AList.update (nid n) c cm else cm
      | None \<Rightarrow> cm)"

definition indexFile :: "'c node \<Rightarrow> ('c list, 'c node) js_map \<Rightarrow> ('c list, 'c node) js_map" where
  "indexFile n m = (if ntype n = File then AList.update (nid n) n m else m)"

definition graft :: "('c list, 'c list) js_map \<Rightarrow> 'c node \<Rightarrow> 'c list option" where
  "graft cm n = (if has cm (nid n) then map_of cm (nid n) else content n)"

definition is_file :: "'c node \<Rightarrow> bool" where
  "is_file n = (ntype n = File)"

definition loaded_file :: "'c node \<Rightarrow> bool" where
  "loaded_file n = (ntype n = File \<and> content n \<noteq> None)"





fun expandAll :: "'c node list \<Rightarrow> 'c node list" where
  "expandAll [] = []"
| "expandAll (Node i nm ty ch co op # ns) =
     (case ty of
        File \<Rightarrow> Node i nm ty ch co op
      | Folder \<Rightarrow>
          Node i nm ty (Some (case ch of Some cs \<Rightarrow> expandAll cs | None \<Rightarrow> [])) co (Some True))
     # expandAll ns"

text \<open>
  Sample data, all in ASCII. \<open>asciiLower\<close> maps the letters A to Z to a to z and
  leaves every other character alone: that is what \<^verbatim>\<open>toLowerCase\<close> does to a string
  of ASCII characters, so it stands for the built-in in the examples, and only there.
  The sample trees are a folder \<^verbatim>\<open>/a\<close> holding the file \<^verbatim>\<open>/a/x.js\<close>, and variations.
\<close>

definition asciiLower :: "string \<Rightarrow> string" where
  "asciiLower s =
     map (\<lambda>c. let k = (of_char c :: nat) in if 65 \<le> k \<and> k \<le> 90 then char_of (k + 32) else c) s"

definition file_x :: "string option \<Rightarrow> char node" where
  "file_x c = Node ''/a/x.js'' ''x.js'' File None c None"

definition file_y :: "string option \<Rightarrow> char node" where
  "file_y c = Node ''/a/y.js'' ''y.js'' File None c None"

definition file_a :: "string option \<Rightarrow> char node" where
  "file_a c = Node ''/a'' ''a'' File None c None"

definition folder_a :: "char node list \<Rightarrow> char node" where
  "folder_a cs = Node ''/a'' ''a'' Folder (Some cs) None (Some False)"

definition msg_welcome :: "char message" where
  "msg_welcome = \<lparr>mid = 1, mrole = Agent, mtext = ''Welcome'', isStreaming = None\<rparr>"

definition state0 :: "char app_state" where
  "state0 = \<lparr>files = [folder_a [file_x (Some ''old'')]], openFiles = [''/a/x.js''],
             activeFileId = Some ''/a/x.js'', fileToSave = None,
             messages = [msg_welcome], isProcessing = True\<rparr>"

text \<open>
  A state with a save pending for \<^verbatim>\<open>/a/x.js\<close>, which is an open tab, while the tree
  held no longer lists that file (it was removed on disk and the tree was refreshed
  since the edit); and the \<^verbatim>\<open>file_change\<close> event.
\<close>

definition state_pending :: "char app_state" where
  "state_pending = \<lparr>files = [folder_a [file_y (Some ''kept'')]],
                    openFiles = [''/a/x.js'', ''/a/y.js''],
                    activeFileId = Some ''/a/x.js'',
                    fileToSave = Some (''/a/x.js'', ''edited''),
                    messages = [msg_welcome], isProcessing = False\<rparr>"

definition file_change :: "char ws_data" where
  "file_change = \<lparr>dtype = ''system_event'', devent = Some ''file_change'', dtext = None\<rparr>"

section \<open>Traversals as passes over the pre-order node list\<close>

lemma find_app: "List.find P (xs @ ys) = (case List.find P xs of None \<Rightarrow> List.find P ys | Some x \<Rightarrow> Some x)"
  by (induction xs) auto

lemma findNodeById_find: "findNodeById t i = List.find (\<lambda>n. nid n = i) (nodes_of t)"
  by (induction t i rule: findNodeById.induct) (auto simp: find_app split: option.splits)

lemma applyContent_nodes:
  "map (\<lambda>n. (nid n, name n, ntype n, isOpen n, content n)) (nodes_of (applyContent cm t)) =
   map (\<lambda>n. (nid n, name n, ntype n, isOpen n, graft cm n)) (nodes_of t)"
  by (induction cm t rule: applyContent.induct) (auto simp: graft_def split: option.splits)

lemma applyContent_shape: "shape_of (applyContent cm t) = shape_of t"
  by (induction cm t rule: applyContent.induct) (auto split: option.splits)

lemma traverseOld_fold: "traverseOld t cm = fold noteContent (nodes_of t) cm"
  by (induction t cm rule: traverseOld.induct) (auto simp: noteContent_def split: option.splits)

lemma has_map_of: "has m k = (map_of m k \<noteq> None)"
  by (simp add: has_def map_of_eq_None_iff)

lemma fold_noteContent_other:
  "k \<notin> nid ` set xs \<Longrightarrow> map_of (fold noteContent xs cm) k = map_of cm k"
  by (induction xs arbitrary: cm) (auto simp: noteContent_def update_conv' split: option.splits)

lemma fold_noteContent_hit:
  "distinct (map nid xs) \<Longrightarrow> n \<in> set xs \<Longrightarrow> ntype n = File \<Longrightarrow> content n = Some C \<Longrightarrow>
   map_of (fold noteContent xs cm) (nid n) = Some C"
proof (induction xs arbitrary: cm)
  case Nil
  then show ?case by simp
next
  case (Cons x xs)
  show ?case
  proof (cases "n = x")
    case True
    with Cons.prems have "nid n \<notin> nid ` set xs" by auto
    then have "map_of (fold noteContent xs (noteContent x cm)) (nid n) = map_of (noteContent x cm) (nid n)"
      by (rule fold_noteContent_other)
    moreover from True Cons.prems have "noteContent x cm = AList.update (nid n) C cm"
      by (simp add: noteContent_def)
    ultimately show ?thesis by (simp add: update_conv')
  next
    case False
    with Cons.prems have "n \<in> set xs" "distinct (map nid xs)" by auto
    from Cons.IH[OF this(2) this(1) Cons.prems(3,4)] show ?thesis by simp
  qed
qed

lemma contentMap_of_loaded_file:
  assumes "unique_ids old" "f \<in> set (nodes_of old)" "ntype f = File" "content f = Some C"
  shows "map_of (traverseOld old []) (nid f) = Some C"
  using assms by (simp add: traverseOld_fold unique_ids_def ids_of_def fold_noteContent_hit)

lemma merged_node_origin:
  assumes "n \<in> set (nodes_of (applyContent cm t))"
  shows "\<exists>m \<in> set (nodes_of t). nid n = nid m \<and> content n = graft cm m"
proof -
  from assms have "(nid n, name n, ntype n, isOpen n, content n)
      \<in> set (map (\<lambda>n. (nid n, name n, ntype n, isOpen n, content n)) (nodes_of (applyContent cm t)))"
    by (simp add: image_iff) blast
  then have "(nid n, name n, ntype n, isOpen n, content n)
      \<in> set (map (\<lambda>n. (nid n, name n, ntype n, isOpen n, graft cm n)) (nodes_of t))"
    by (simp only: applyContent_nodes)
  then show ?thesis by auto
qed

lemma applyContent_ids: "ids_of (applyContent cm t) = ids_of t"
proof -
  have "map fst (map (\<lambda>n. (nid n, name n, ntype n, isOpen n, content n)) (nodes_of (applyContent cm t)))
      = map fst (map (\<lambda>n. (nid n, name n, ntype n, isOpen n, graft cm n)) (nodes_of t))"
    by (simp only: applyContent_nodes)
  then show ?thesis by (simp add: ids_of_def comp_def)
qed

section \<open>Merge engine\<close>

text \<open>
  C1 (merge preserves content). Let the old tree have unique ids, as the data model
  requires, and contain a file node \<open>f\<close> whose content is \<open>C\<close> (loaded, not
  \<^verbatim>\<open>undefined\<close>), and let the new tree contain a node with the id of \<open>f\<close>. Then in
  the tree returned by \<open>mergeTreeContent\<close> the node found under that id exists and has
  content \<open>C\<close>, and so has every node of the result carrying that id.
\<close>

theorem merge_preserves_content:
  assumes "unique_ids oldNodes"
    and "f \<in> set (nodes_of oldNodes)" and "ntype f = File" and "content f = Some C"
    and "nid f \<in> set (ids_of newNodes)"
  shows "(\<exists>n. findNodeById (mergeTreeContent oldNodes newNodes) (nid f) = Some n
              \<and> content n = Some C)
       \<and> (\<forall>n \<in> set (nodes_of (mergeTreeContent oldNodes newNodes)).
              nid n = nid f \<longrightarrow> content n = Some C)"
proof -
  let ?cm = "traverseOld oldNodes []"
  let ?res = "mergeTreeContent oldNodes newNodes"
  have cm: "map_of ?cm (nid f) = Some C"
    using assms(1-4) by (rule contentMap_of_loaded_file)
  have all: "content n = Some C" if "n \<in> set (nodes_of ?res)" "nid n = nid f" for n
  proof -
    from that(1) obtain m where "nid n = nid m" "content n = graft ?cm m"
      unfolding mergeTreeContent_def using merged_node_origin by blast
    with that(2) cm show ?thesis by (simp add: graft_def has_map_of)
  qed
  have "nid f \<in> set (ids_of ?res)"
    using assms(5) by (simp add: mergeTreeContent_def applyContent_ids)
  then obtain n where n: "List.find (\<lambda>n. nid n = nid f) (nodes_of ?res) = Some n"
    by (cases "List.find (\<lambda>n. nid n = nid f) (nodes_of ?res)")
       (auto simp: ids_of_def find_None_iff)
  then have "n \<in> set (nodes_of ?res)" "nid n = nid f"
    by (auto simp: find_Some_iff)
  with all n show ?thesis by (auto simp: findNodeById_find)
qed

theorem merge_preserves_content_witness:
  "unique_ids [folder_a [file_x (Some ''C'')]]
   \<and> file_x (Some ''C'') \<in> set (nodes_of [folder_a [file_x (Some ''C'')]])
   \<and> ntype (file_x (Some ''C'')) = File
   \<and> content (file_x (Some ''C'')) = Some ''C''
   \<and> nid (file_x (Some ''C'')) \<in> set (ids_of [folder_a [file_y None, file_x None]])
   \<and> (\<exists>n. findNodeById (mergeTreeContent [folder_a [file_x (Some ''C'')]]
                 [folder_a [file_y None, file_x None]]) (nid (file_x (Some ''C''))) = Some n
            \<and> content n = Some ''C'')"
proof -
  have h1: "unique_ids [folder_a [file_x (Some ''C'')]]"
    by (simp add: unique_ids_def ids_of_def folder_a_def file_x_def)
  have h2: "file_x (Some ''C'') \<in> set (nodes_of [folder_a [file_x (Some ''C'')]])"
    by (simp add: folder_a_def file_x_def)
  have h3: "ntype (file_x (Some ''C'')) = File"
    by (simp add: file_x_def)
  have h4: "content (file_x (Some ''C'')) = Some ''C''"
    by (simp add: file_x_def)
  have h5: "nid (file_x (Some ''C'')) \<in> set (ids_of [folder_a [file_y None, file_x None]])"
    by (simp add: ids_of_def folder_a_def file_x_def file_y_def)
  from merge_preserves_content [OF h1 h2 h3 h4 h5] h1 h2 h3 h4 h5
  show ?thesis by blast
qed

text \<open>
  C10 (merge keeps the new shape). The tree returned by \<open>mergeTreeContent\<close> has exactly
  the shape of the new tree: with the content fields forgotten the two trees are equal,
  so they have the same nodes in the same order and nesting, with the same id, name,
  type and isOpen; only content fields can differ.
\<close>

theorem merge_keeps_shape:
  "shape_of (mergeTreeContent oldNodes newNodes) = shape_of newNodes
   \<and> map (\<lambda>n. (nid n, name n, ntype n, isOpen n)) (nodes_of (mergeTreeContent oldNodes newNodes))
     = map (\<lambda>n. (nid n, name n, ntype n, isOpen n)) (nodes_of newNodes)"
proof -
  let ?res = "mergeTreeContent oldNodes newNodes"
  let ?cm = "traverseOld oldNodes []"
  have "map (\<lambda>(a, b, c, d, e). (a, b, c, d)) (map (\<lambda>n. (nid n, name n, ntype n, isOpen n, content n)) (nodes_of ?res))
      = map (\<lambda>(a, b, c, d, e). (a, b, c, d)) (map (\<lambda>n. (nid n, name n, ntype n, isOpen n, graft ?cm n)) (nodes_of newNodes))"
    unfolding mergeTreeContent_def by (simp only: applyContent_nodes)
  then show ?thesis by (simp add: mergeTreeContent_def applyContent_shape comp_def)
qed

section \<open>Content update\<close>

lemma kept_by_update_refl: "list_all2 (kept_by_update i) xs xs"
  by (rule list_all2_refl) (simp add: kept_by_update_def)

lemma update_frame:
  "list_all2 (kept_by_update i) (nodes_of t) (nodes_of (updateFileContent t i c))"
proof (induction t i c rule: updateFileContent.induct)
  case (1 fileId newContent)
  show ?case by simp
next
  case (2 i nm ty ch co op nodes fileId newContent)
  have tl: "list_all2 (kept_by_update fileId) (nodes_of nodes)
              (nodes_of (updateFileContent nodes fileId newContent))"
    by (rule "2.IH"(2))
  show ?case
  proof (cases "i = fileId")
    case True
    have "kept_by_update fileId (Node i nm ty ch co op) (Node i nm ty ch (Some newContent) op)"
      using True by (simp add: kept_by_update_def)
    with True tl show ?thesis
      by (simp add: kept_by_update_refl list_all2_appendI)
  next
    case False
    show ?thesis
    proof (cases ch)
      case None
      have "kept_by_update fileId (Node i nm ty ch co op) (Node i nm ty ch co op)"
        by (simp add: kept_by_update_def)
      with False None tl show ?thesis by simp
    next
      case (Some cs)
      have hd: "kept_by_update fileId (Node i nm ty (Some cs) co op)
                  (Node i nm ty (Some (updateFileContent cs fileId newContent)) co op)"
        by (simp add: kept_by_update_def)
      have "list_all2 (kept_by_update fileId) (nodes_of cs)
              (nodes_of (updateFileContent cs fileId newContent))"
        using False Some by (rule "2.IH"(1))
      with False Some tl hd show ?thesis
        by (simp add: list_all2_appendI)
    qed
  qed
qed

lemma update_shape: "shape_of (updateFileContent t i c) = shape_of t"
  by (induction t i c rule: updateFileContent.induct) (auto split: option.splits)

lemma update_find:
  "findNodeById (updateFileContent t i c) i = map_option (\<lambda>n. withContent n c) (findNodeById t i)"
  by (induction t i c rule: updateFileContent.induct)
     (auto simp: withContent_def split: option.splits)

lemma update_no_match: "i \<notin> set (ids_of t) \<Longrightarrow> updateFileContent t i c = t"
  by (induction t i c rule: updateFileContent.induct)
     (auto simp: ids_of_def split: option.splits)

lemma updateNodeContent_eq: "updateNodeContent i c t = updateFileContent t i c"
  by (induction t i c rule: updateFileContent.induct) (auto split: option.splits)

lemma update_ids: "ids_of (updateFileContent t i c) = ids_of t"
  by (induction t i c rule: updateFileContent.induct) (auto simp: ids_of_def split: option.splits)

lemma unique_ids_find:
  assumes "unique_ids t" "n \<in> set (nodes_of t)"
  shows "findNodeById t (nid n) = Some n"
proof -
  from assms(2) obtain m where m: "List.find (\<lambda>k. nid k = nid n) (nodes_of t) = Some m"
    by (cases "List.find (\<lambda>k. nid k = nid n) (nodes_of t)") (auto simp: find_None_iff)
  then have "m \<in> set (nodes_of t)" "nid m = nid n"
    by (auto simp: find_Some_iff)
  moreover from assms(1) have "inj_on nid (set (nodes_of t))"
    by (simp add: unique_ids_def ids_of_def distinct_map)
  ultimately have "m = n" using assms(2) by (auto dest: inj_onD)
  with m show ?thesis by (simp add: findNodeById_find)
qed

text \<open>
  C7 (frame of updateContent). For every tree, id and new content, in the tree
  returned by \<open>updateFileContent\<close>: the node found under the id is the node found
  under it before with its content replaced by the new content (and when ids are
  unique, every node carrying the id has the new content); position by position, every
  node keeps its id, name, type and isOpen, and keeps its content when its id differs;
  the nesting is unchanged; and when no node has the id, the returned tree equals the
  input tree.
\<close>

theorem updateFileContent_frame:
  "findNodeById (updateFileContent t i c) i
     = map_option (\<lambda>n. withContent n c) (findNodeById t i)
   \<and> (unique_ids t \<longrightarrow>
        (\<forall>n' \<in> set (nodes_of (updateFileContent t i c)). nid n' = i \<longrightarrow> content n' = Some c))
   \<and> list_all2 (kept_by_update i) (nodes_of t) (nodes_of (updateFileContent t i c))
   \<and> shape_of (updateFileContent t i c) = shape_of t
   \<and> (i \<notin> set (ids_of t) \<longrightarrow> updateFileContent t i c = t)"
proof -
  let ?res = "updateFileContent t i c"
  have uniq: "content n' = Some c"
    if "unique_ids t" "n' \<in> set (nodes_of ?res)" "nid n' = i" for n'
  proof -
    from that(1) have "unique_ids ?res"
      by (simp add: unique_ids_def update_ids)
    from unique_ids_find [OF this that(2)] that(3)
    have "map_option (\<lambda>n. withContent n c) (findNodeById t i) = Some n'"
      by (simp add: update_find)
    then show ?thesis by (auto simp: withContent_def)
  qed
  show ?thesis
    using uniq
    by (simp add: update_find update_frame update_shape update_no_match)
qed

theorem updateFileContent_frame_witness:
  "unique_ids [folder_a [file_x (Some ''old''), file_y (Some ''keep'')]]
   \<and> ''/b'' \<notin> set (ids_of [folder_a [file_x (Some ''old''), file_y (Some ''keep'')]])
   \<and> updateFileContent [folder_a [file_x (Some ''old''), file_y (Some ''keep'')]] ''/b'' ''new''
       = [folder_a [file_x (Some ''old''), file_y (Some ''keep'')]]
   \<and> updateFileContent [folder_a [file_x (Some ''old''), file_y (Some ''keep'')]] ''/a/x.js'' ''new''
       = [folder_a [file_x (Some ''new''), file_y (Some ''keep'')]]"
  using updateFileContent_frame
          [of "[folder_a [file_x (Some ''old''), file_y (Some ''keep'')]]" "''/b''" "''new''"]
        updateFileContent_frame
          [of "[folder_a [file_x (Some ''old''), file_y (Some ''keep'')]]" "''/a/x.js''" "''new''"]
  by (simp add: unique_ids_def ids_of_def folder_a_def file_x_def file_y_def)

section \<open>The file/folder invariant\<close>

lemma tree_ok_Cons:
  "tree_ok (Node i nm ty ch co op # ns) =
     (node_ok (Node i nm ty ch co op) \<and> tree_ok (case ch of Some cs \<Rightarrow> cs | None \<Rightarrow> []) \<and> tree_ok ns)"
  by (simp add: tree_ok_def split: option.splits)

lemma tree_ok_Nil: "tree_ok []"
  by (simp add: tree_ok_def)

lemma update_tree_ok:
  "tree_ok t \<Longrightarrow> \<forall>n \<in> set (nodes_of t). nid n = i \<longrightarrow> ntype n = File \<Longrightarrow>
   tree_ok (updateFileContent t i c)"
  by (induction t i c rule: updateFileContent.induct)
     (auto simp: tree_ok_Cons tree_ok_Nil node_ok_def split: option.splits ntype.splits)

lemma has_fold_noteContent:
  "has (fold noteContent xs cm) k = (has cm k \<or> (\<exists>f \<in> set xs. loaded_file f \<and> nid f = k))"
proof (induction xs arbitrary: cm)
  case Nil
  show ?case by simp
next
  case (Cons x xs)
  have "has (noteContent x cm) k = (has cm k \<or> (loaded_file x \<and> nid x = k))"
    by (auto simp: noteContent_def has_def loaded_file_def dom_update split: option.splits)
  with Cons show ?case by auto
qed

lemma has_traverseOld:
  "has (traverseOld old []) k = (\<exists>f \<in> set (nodes_of old). loaded_file f \<and> nid f = k)"
  by (simp add: traverseOld_fold has_fold_noteContent) (simp add: has_def)

lemma applyContent_tree_ok:
  "tree_ok t \<Longrightarrow> \<forall>n \<in> set (nodes_of t). ntype n = Folder \<longrightarrow> \<not> has cm (nid n) \<Longrightarrow>
   tree_ok (applyContent cm t)"
  by (induction cm t rule: applyContent.induct)
     (auto simp: tree_ok_Cons tree_ok_Nil node_ok_def split: option.splits ntype.splits)

text \<open>
  C9 (file/folder invariant), as the code has it. A tree in which no file has children
  and no folder has content stays so under \<open>updateFileContent\<close> and under the content
  re-fetch update, provided no folder of the tree carries the id that is updated; and
  \<open>mergeTreeContent\<close> returns such a tree when the new tree is one and no folder of the
  new tree carries the id of a file of the old tree that holds content.
\<close>

theorem invariant_preserved_for_file_ids:
  "(tree_ok t \<and> (\<forall>n \<in> set (nodes_of t). nid n = i \<longrightarrow> ntype n = File)
      \<longrightarrow> tree_ok (updateFileContent t i c)
          \<and> tree_ok (files (fetchFileContent i r (s\<lparr>files := t\<rparr>))))
   \<and> (tree_ok new
        \<and> (\<forall>n \<in> set (nodes_of new). ntype n = Folder \<longrightarrow>
              (\<forall>f \<in> set (nodes_of old). loaded_file f \<longrightarrow> nid f \<noteq> nid n))
      \<longrightarrow> tree_ok (mergeTreeContent old new))"
proof -
  have upd: "tree_ok (updateFileContent t i c')"
    if "tree_ok t" "\<forall>n \<in> set (nodes_of t). nid n = i \<longrightarrow> ntype n = File" for c'
    using that by (rule update_tree_ok)
  have fetch: "tree_ok (files (fetchFileContent i r (s\<lparr>files := t\<rparr>)))"
    if "tree_ok t" "\<forall>n \<in> set (nodes_of t). nid n = i \<longrightarrow> ntype n = File"
    using that upd by (cases r) (simp_all add: fetchFileContent_def updateNodeContent_eq)
  have mrg: "tree_ok (mergeTreeContent old new)"
    if "tree_ok new"
      "\<forall>n \<in> set (nodes_of new). ntype n = Folder \<longrightarrow>
          (\<forall>f \<in> set (nodes_of old). loaded_file f \<longrightarrow> nid f \<noteq> nid n)"
  proof -
    from that(2) have "\<forall>n \<in> set (nodes_of new). ntype n = Folder \<longrightarrow>
        \<not> has (traverseOld old []) (nid n)"
      by (auto simp: has_traverseOld)
    with that(1) show ?thesis
      unfolding mergeTreeContent_def by (rule applyContent_tree_ok)
  qed
  from upd fetch mrg show ?thesis by blast
qed

theorem invariant_preserved_for_file_ids_witness:
  "tree_ok [folder_a [file_x None]]
   \<and> tree_ok (updateFileContent [folder_a [file_x None]] ''/a/x.js'' ''new'')
   \<and> tree_ok (files (fetchFileContent ''/a/x.js'' (Some ''new'') (state0\<lparr>files := [folder_a [file_x None]]\<rparr>)))
   \<and> tree_ok (mergeTreeContent [folder_a [file_x (Some ''old'')]] [folder_a [file_x None]])"
proof -
  have h1: "tree_ok [folder_a [file_x None]]"
    by (simp add: tree_ok_def node_ok_def folder_a_def file_x_def)
  have h2: "\<forall>n \<in> set (nodes_of [folder_a [file_x None]]). nid n = ''/a/x.js'' \<longrightarrow> ntype n = File"
    by (simp add: folder_a_def file_x_def)
  have h3: "\<forall>n \<in> set (nodes_of [folder_a [file_x None]]). ntype n = Folder \<longrightarrow>
          (\<forall>f \<in> set (nodes_of [folder_a [file_x (Some ''old'')]]). loaded_file f \<longrightarrow> nid f \<noteq> nid n)"
    by (simp add: folder_a_def file_x_def loaded_file_def)
  from invariant_preserved_for_file_ids
         [of "[folder_a [file_x None]]" "''/a/x.js''" "''new''" "Some ''new''" state0
             "[folder_a [file_x None]]" "[folder_a [file_x (Some ''old'')]]"]
       h1 h2 h3
  show ?thesis by blast
qed

text \<open>
  C9 as stated fails: none of the three operations looks at the type of the node whose
  id matches. Updating, or re-fetching, under the id of a folder gives the folder a
  content; and when a path that was a loaded file in the old tree is a folder in the
  new one, the merge grafts the file's content onto the folder.
\<close>

theorem invariant_broken_on_folder_id:
  "tree_ok [folder_a []]
   \<and> \<not> tree_ok (updateFileContent [folder_a []] ''/a'' ''x'')
   \<and> \<not> tree_ok (files (fetchFileContent ''/a'' (Some ''x'') (state0\<lparr>files := [folder_a []]\<rparr>)))
   \<and> tree_ok [file_a (Some ''x'')]
   \<and> \<not> tree_ok (mergeTreeContent [file_a (Some ''x'')] [folder_a []])"
  by (simp add: tree_ok_def node_ok_def folder_a_def file_a_def fetchFileContent_def
                mergeTreeContent_def has_def)

section \<open>Flatten / index\<close>

lemma flattenFiles_fold: "flattenFiles t m = fold indexFile (nodes_of t) m"
  by (induction t m rule: flattenFiles.induct) (auto simp: indexFile_def split: option.splits)

lemma update_absent: "k \<notin> fst ` set al \<Longrightarrow> AList.update k v al = al @ [(k, v)]"
  by (induction al) auto

lemma update_entry: "(a, b) \<in> set (AList.update k v al) \<Longrightarrow> (a, b) \<in> set al \<or> (a = k \<and> b = v)"
  by (induction al) (auto split: if_splits)

lemma fold_indexFile_keys:
  "fst ` set (fold indexFile xs m) = fst ` set m \<union> nid ` {n \<in> set xs. ntype n = File}"
proof (induction xs arbitrary: m)
  case Nil
  show ?case by simp
next
  case (Cons x xs)
  have "fst ` set (indexFile x m) = fst ` set m \<union> (if ntype x = File then {nid x} else {})"
    by (auto simp: indexFile_def dom_update)
  with Cons [of "indexFile x m"] show ?case by auto
qed

lemma fold_indexFile_distinct:
  "distinct (map fst m) \<Longrightarrow> distinct (map fst (fold indexFile xs m))"
proof (induction xs arbitrary: m)
  case Nil
  then show ?case by simp
next
  case (Cons x xs)
  from Cons.prems have "distinct (map fst (indexFile x m))"
    by (simp add: indexFile_def distinct_update)
  then show ?case using Cons.IH by simp
qed

lemma fold_indexFile_entries:
  "(k, n) \<in> set (fold indexFile xs m) \<Longrightarrow>
   (k, n) \<in> set m \<or> (n \<in> set xs \<and> ntype n = File \<and> nid n = k)"
proof (induction xs arbitrary: m)
  case Nil
  then show ?case by simp
next
  case (Cons x xs)
  from Cons.prems have "(k, n) \<in> set (fold indexFile xs (indexFile x m))" by simp
  from Cons.IH [OF this] show ?case
    by (auto simp: indexFile_def dest: update_entry split: if_splits)
qed

lemma fold_indexFile_unique:
  "distinct (map nid xs) \<Longrightarrow> nid ` set xs \<inter> fst ` set m = {} \<Longrightarrow>
   fold indexFile xs m = m @ map (\<lambda>n. (nid n, n)) (filter is_file xs)"
proof (induction xs arbitrary: m)
  case Nil
  show ?case by simp
next
  case (Cons x xs)
  show ?case
  proof (cases "is_file x")
    case True
    from Cons.prems(2) have "nid x \<notin> fst ` set m" by auto
    with True have step: "indexFile x m = m @ [(nid x, x)]"
      by (simp add: indexFile_def is_file_def update_absent)
    from Cons.prems have "nid ` set xs \<inter> fst ` set (m @ [(nid x, x)]) = {}"
      by (auto simp: image_iff)
    with Cons.prems(1) have "fold indexFile xs (m @ [(nid x, x)])
        = (m @ [(nid x, x)]) @ map (\<lambda>n. (nid n, n)) (filter is_file xs)"
      by (intro Cons.IH) simp_all
    with True step show ?thesis by simp
  next
    case False
    then have step: "indexFile x m = m"
      by (simp add: indexFile_def is_file_def)
    from Cons.prems have "nid ` set xs \<inter> fst ` set m = {}" by auto
    with Cons.prems(1) have "fold indexFile xs m = m @ map (\<lambda>n. (nid n, n)) (filter is_file xs)"
      by (intro Cons.IH) simp_all
    with False step show ?thesis by simp
  qed
qed

lemma flattenFiles_unique:
  "unique_ids t \<Longrightarrow> flattenFiles t [] = map (\<lambda>n. (nid n, n)) (filter is_file (nodes_of t))"
  by (simp add: flattenFiles_fold unique_ids_def ids_of_def fold_indexFile_unique)

lemma flattenFiles_keys:
  "set (map fst (flattenFiles t [])) = nid ` {n \<in> set (nodes_of t). ntype n = File}"
  by (simp add: flattenFiles_fold fold_indexFile_keys)

lemma flattenFiles_distinct: "distinct (map fst (flattenFiles t []))"
  by (simp add: flattenFiles_fold fold_indexFile_distinct)

lemma flattenFiles_entries:
  "(k, n) \<in> set (flattenFiles t []) \<Longrightarrow> n \<in> set (nodes_of t) \<and> ntype n = File \<and> nid n = k"
  using fold_indexFile_entries [of k n "nodes_of t" "[]"] by (simp add: flattenFiles_fold)

text \<open>
  C4 (flatten), as the code has it. \<open>flattenFiles\<close> is one depth-first pass over the
  nodes of the tree that indexes the file nodes only: the keys of the returned map are
  exactly the ids of the file nodes, every entry maps an id to a file node of the tree
  with that id, and folder nodes get no entry. When ids are unique, every file node is
  the entry of its id and no folder id is a key.
\<close>

theorem flattenFiles_indexes_files:
  "flattenFiles t [] = fold indexFile (nodes_of t) []
   \<and> set (map fst (flattenFiles t [])) = nid ` {n \<in> set (nodes_of t). ntype n = File}
   \<and> (\<forall>k n. map_of (flattenFiles t []) k = Some n \<longrightarrow>
          n \<in> set (nodes_of t) \<and> ntype n = File \<and> nid n = k)
   \<and> (unique_ids t \<longrightarrow>
        (\<forall>n \<in> set (nodes_of t).
           (ntype n = File \<longrightarrow> map_of (flattenFiles t []) (nid n) = Some n)
         \<and> (ntype n = Folder \<longrightarrow> map_of (flattenFiles t []) (nid n) = None)))"
proof -
  have vals: "n \<in> set (nodes_of t) \<and> ntype n = File \<and> nid n = k"
    if "map_of (flattenFiles t []) k = Some n" for k n
    using that by (auto dest: map_of_SomeD flattenFiles_entries)
  have fil: "map_of (flattenFiles t []) (nid n) = Some n"
    if "unique_ids t" "n \<in> set (nodes_of t)" "ntype n = File" for n
  proof -
    from that have "(nid n, n) \<in> set (flattenFiles t [])"
      by (simp add: flattenFiles_unique is_file_def image_iff)
    then show ?thesis
      by (simp add: flattenFiles_distinct)
  qed
  have folder: "map_of (flattenFiles t []) (nid n) = None"
    if u: "unique_ids t" and n: "n \<in> set (nodes_of t)" and ty: "ntype n = Folder" for n
  proof (rule ccontr)
    assume "map_of (flattenFiles t []) (nid n) \<noteq> None"
    then obtain m where "map_of (flattenFiles t []) (nid n) = Some m" by auto
    from vals [OF this] have m: "m \<in> set (nodes_of t)" "ntype m = File" "nid m = nid n" by auto
    from u have "inj_on nid (set (nodes_of t))"
      by (simp add: unique_ids_def ids_of_def distinct_map)
    with m n have "m = n" by (auto dest: inj_onD)
    with m ty show False by simp
  qed
  have keys: "set (map fst (flattenFiles t [])) = nid ` {n \<in> set (nodes_of t). ntype n = File}"
    by (rule flattenFiles_keys)
  have pass: "flattenFiles t [] = fold indexFile (nodes_of t) []"
    by (rule flattenFiles_fold)
  from pass keys vals fil folder show ?thesis by blast
qed

theorem flattenFiles_indexes_files_witness:
  "unique_ids [folder_a [file_x None]]
   \<and> file_x None \<in> set (nodes_of [folder_a [file_x None]])
   \<and> ntype (file_x None) = File
   \<and> map_of (flattenFiles [folder_a [file_x None]] []) (nid (file_x None)) = Some (file_x None)"
proof -
  have h1: "unique_ids [folder_a [file_x None]]"
    by (simp add: unique_ids_def ids_of_def folder_a_def file_x_def)
  have h2: "file_x None \<in> set (nodes_of [folder_a [file_x None]])"
    by (simp add: folder_a_def file_x_def)
  have h3: "ntype (file_x None) = File"
    by (simp add: file_x_def)
  from flattenFiles_indexes_files [of "[folder_a [file_x None]]"] h1 h2 h3
  show ?thesis by blast
qed

text \<open>
  C4 as stated fails: a folder node of the tree has no entry in the map that
  \<open>flattenFiles\<close> returns.
\<close>

theorem flattenFiles_skips_folders:
  "folder_a [file_x None] \<in> set (nodes_of [folder_a [file_x None]])
   \<and> ntype (folder_a [file_x None]) = Folder
   \<and> map_of (flattenFiles [folder_a [file_x None]] []) (nid (folder_a [file_x None])) = None
   \<and> \<not> has (flattenFiles [folder_a [file_x None]] []) (nid (folder_a [file_x None]))"
  by (simp add: folder_a_def file_x_def has_def)

section \<open>Refresh protocol\<close>

lemma newFileIds_of_files:
  "\<forall>(k, n) \<in> set newMap. ntype n = File \<Longrightarrow>
   newFileIds prevMap newMap = filter (\<lambda>i. \<not> has prevMap i) (map fst newMap)"
  unfolding newFileIds_def by (induction newMap) auto

lemma newFileIds_flatten:
  "newFileIds (flattenFiles old []) (flattenFiles new [])
     = filter (\<lambda>i. \<not> has (flattenFiles old []) i) (map fst (flattenFiles new []))"
  by (rule newFileIds_of_files) (auto dest: flattenFiles_entries)

lemma pushNew_distinct:
  "distinct ids \<Longrightarrow> pushNew ids prev = prev @ filter (\<lambda>i. i \<notin> set prev) ids"
  unfolding pushNew_def
proof (induction ids arbitrary: prev)
  case Nil
  show ?case by simp
next
  case (Cons i ids)
  show ?case
  proof (cases "i \<in> set prev")
    case True
    with Cons show ?thesis by simp
  next
    case False
    from Cons.prems have "filter (\<lambda>j. j \<notin> set (prev @ [i])) ids = filter (\<lambda>j. j \<notin> set prev) ids"
      by (intro filter_cong) auto
    with False Cons show ?thesis by simp
  qed
qed

lemma fetchFileTree_later_load:
  assumes "files s \<noteq> []"
    and "ids = filter (\<lambda>i. \<not> has (flattenFiles (files s) []) i) (map fst (flattenFiles newTree []))"
  shows "fetchFileTree (TreeShape newTree) s =
           (if ids = [] then (s\<lparr>files := mergeTreeContent (files s) newTree\<rparr>, [])
            else (s\<lparr>files := mergeTreeContent (files s) newTree,
                    openFiles := openFiles s @ filter (\<lambda>i. i \<notin> set (openFiles s)) ids,
                    activeFileId := Some (last ids)\<rparr>,
                  [GetContent (last ids)]))"
proof -
  have d: "distinct ids"
    unfolding assms(2) by (simp add: flattenFiles_distinct)
  have n: "newFileIds (flattenFiles (files s) []) (flattenFiles newTree []) = ids"
    unfolding assms(2) by (rule newFileIds_flatten)
  show ?thesis
    using assms(1) d by (simp add: fetchFileTree_def Let_def n pushNew_distinct)
qed

text \<open>
  C3 (new-file detection). On a refresh that is not the first (the old tree is not
  empty), let \<open>ids\<close> be the ids of the new tree's index that are absent from the old
  tree's index, in index order. When there are any, the refresh commits the merged
  tree, appends to the Open-File Set those of them that are not open yet, makes the last
  of them the active file and requests the content of that one only. When there are
  none, it commits the merged tree and does nothing else. Ids of the old index are
  never among \<open>ids\<close>, so they get no tab, no activation and no content request.
\<close>

theorem refresh_opens_new_files:
  assumes "files s \<noteq> []"
    and "ids = filter (\<lambda>i. \<not> has (flattenFiles (files s) []) i) (map fst (flattenFiles newTree []))"
  shows "fetchFileTree (TreeShape newTree) s =
           (if ids = [] then (s\<lparr>files := mergeTreeContent (files s) newTree\<rparr>, [])
            else (s\<lparr>files := mergeTreeContent (files s) newTree,
                    openFiles := openFiles s @ filter (\<lambda>i. i \<notin> set (openFiles s)) ids,
                    activeFileId := Some (last ids)\<rparr>,
                  [GetContent (last ids)]))
         \<and> distinct ids
         \<and> set ids = {i. has (flattenFiles newTree []) i \<and> \<not> has (flattenFiles (files s) []) i}"
proof -
  have d: "distinct ids"
    unfolding assms(2) by (simp add: flattenFiles_distinct)
  have st: "set ids = {i. has (flattenFiles newTree []) i \<and> \<not> has (flattenFiles (files s) []) i}"
    unfolding assms(2) by (auto simp: has_def)
  from fetchFileTree_later_load [OF assms] d st show ?thesis by simp
qed

theorem refresh_opens_new_files_witness:
  "files state0 \<noteq> []
   \<and> [''/a/y.js''] = filter (\<lambda>i. \<not> has (flattenFiles (files state0) []) i)
                        (map fst (flattenFiles [folder_a [file_x None, file_y None]] []))
   \<and> fetchFileTree (TreeShape [folder_a [file_x None, file_y None]]) state0 =
       (state0\<lparr>files := [folder_a [file_x (Some ''old''), file_y None]],
               openFiles := [''/a/x.js'', ''/a/y.js''],
               activeFileId := Some ''/a/y.js''\<rparr>,
        [GetContent ''/a/y.js''])"
proof -
  have h1: "files state0 \<noteq> []"
    by (simp add: state0_def)
  have h2: "[''/a/y.js''] = filter (\<lambda>i. \<not> has (flattenFiles (files state0) []) i)
                        (map fst (flattenFiles [folder_a [file_x None, file_y None]] []))"
    by (simp add: state0_def folder_a_def file_x_def file_y_def has_def)
  have m: "mergeTreeContent (files state0) [folder_a [file_x None, file_y None]]
             = [folder_a [file_x (Some ''old''), file_y None]]"
    by (simp add: state0_def folder_a_def file_x_def file_y_def mergeTreeContent_def has_def)
  have o: "openFiles state0 = [''/a/x.js'']"
    by (simp add: state0_def)
  from refresh_opens_new_files [OF h1 h2]
  have r: "fetchFileTree (TreeShape [folder_a [file_x None, file_y None]]) state0 =
       (state0\<lparr>files := [folder_a [file_x (Some ''old''), file_y None]],
               openFiles := [''/a/x.js'', ''/a/y.js''],
               activeFileId := Some ''/a/y.js''\<rparr>,
        [GetContent ''/a/y.js''])"
    by (simp add: m o)
  from h1 h2 r show ?thesis by blast
qed

section \<open>Live channel: file-change events\<close>

text \<open>
  What the handler itself requests on a \<^verbatim>\<open>file_change\<close> event while the pending-save
  slot holds \<open>(pid, c)\<close>: the tree, and then the content of every id of the
  Open-File Set other than \<open>pid\<close>, in order. Its loop skips the pending id.
\<close>

lemma onmessage_skips_pending:
  assumes "fileToSave s = Some (pid, c)"
    and "dtype d = ''system_event''" and "devent d = Some ''file_change''"
  shows "onmessage now d s
           = Inr (s, GetFiles # map GetContent (filter (\<lambda>i. i \<noteq> pid) (openFiles s)))"
  using assms by (simp add: onmessage_def)

text \<open>
  The tree refresh the same event starts requests the content of at most one id. On a
  first load that is the active id, and only when nothing is pending. On a later load
  it is the last newly appeared id, and the pending-save slot is not looked at: the
  pending id is spared only as long as it is in the index of the tree held.
\<close>

lemma tree_refresh_skips_pending:
  assumes "fileToSave s = Some (pid, c)"
    and "files s = [] \<or> has (flattenFiles (files s) []) pid"
  shows "GetContent pid \<notin> set (snd (fetchFileTree resp s))"
proof (cases resp)
  case TreeError
  then show ?thesis by (simp add: fetchFileTree_def)
next
  case (TreeShape newTree)
  show ?thesis
  proof (cases "files s = []")
    case True
    with TreeShape assms(1) show ?thesis
      by (simp add: fetchFileTree_def Let_def split: option.splits)
  next
    case False
    define ids where "ids = filter (\<lambda>i. \<not> has (flattenFiles (files s) []) i) (map fst (flattenFiles newTree []))"
    from False assms(2) have "pid \<notin> set ids" by (simp add: ids_def)
    moreover have "ids \<noteq> [] \<Longrightarrow> last ids \<in> set ids" by simp
    ultimately show ?thesis
      using fetchFileTree_later_load [OF False ids_def] TreeShape by auto
  qed
qed

text \<open>
  C2 (a pending save is never re-fetched) does not hold of the code. A save is pending
  for \<^verbatim>\<open>/a/x.js\<close>, an open tab, and the tree held lists \<^verbatim>\<open>/a/y.js\<close> only. A
  \<^verbatim>\<open>file_change\<close> event arrives: the handler requests the tree and the content of
  \<^verbatim>\<open>/a/y.js\<close>, skipping the pending id; the tree that comes back lists \<^verbatim>\<open>/a/x.js\<close>
  again, the refresh takes it for a new file and requests its content, the pending id's.
\<close>

theorem pending_file_refetched_by_tree_refresh:
  "fileToSave state_pending = Some (''/a/x.js'', ''edited'')
   \<and> files state_pending \<noteq> []
   \<and> onmessage 5 file_change state_pending
       = Inr (state_pending, [GetFiles, GetContent ''/a/y.js''])
   \<and> snd (fetchFileTree (TreeShape [folder_a [file_y None, file_x None]]) state_pending)
       = [GetContent ''/a/x.js'']
   \<and> GetContent ''/a/x.js''
       \<in> set (snd (fetchFileTree (TreeShape [folder_a [file_y None, file_x None]]) state_pending))"
  by (simp add: state_pending_def file_change_def onmessage_def fetchFileTree_def Let_def
                newFileIds_def pushNew_def has_def folder_a_def file_x_def file_y_def)

section \<open>Live channel: agent-turn events\<close>

text \<open>
  The chat-message sequence starts with the welcome message and every update of it
  appends a message or replaces the last one, so it is never empty when an event
  arrives.
\<close>

lemma onmessage_keeps_messages:
  "messages s \<noteq> [] \<Longrightarrow> onmessage now d s = Inr (s', reqs) \<Longrightarrow> messages s' \<noteq> []"
  by (auto simp: onmessage_def chunkUpdate_def finalUpdate_def Let_def split: if_splits)

text \<open>
  C8 (agent-turn events). On a chat-message sequence as the application holds it (not
  empty): an \<^verbatim>\<open>agent_chunk\<close> event appends its text to the last message when that
  message is a streaming agent message, leaving the earlier messages as they are, and
  otherwise appends a new streaming agent message holding the text; an
  \<^verbatim>\<open>agent_response\<close> or \<^verbatim>\<open>agent_error\<close> event appends a new message that is not
  streaming and sets the processing flag to false. No request is issued.
\<close>

theorem agent_events_update_chat:
  assumes "messages s \<noteq> []"
  shows "(dtype d = ''agent_chunk'' \<longrightarrow>
            onmessage now d s =
              Inr (s\<lparr>messages :=
                     (if mrole (last (messages s)) = Agent \<and> isStreaming (last (messages s)) = Some True
                      then butlast (messages s)
                           @ [(last (messages s))\<lparr>mtext := mtext (last (messages s)) @ textOf d\<rparr>]
                      else messages s
                           @ [\<lparr>mid = now, mrole = Agent, mtext = textOf d, isStreaming = Some True\<rparr>])\<rparr>,
                   []))
       \<and> (dtype d = ''agent_response'' \<or> dtype d = ''agent_error'' \<longrightarrow>
            onmessage now d s =
              Inr (s\<lparr>messages := messages s
                       @ [\<lparr>mid = now, mrole = Agent, mtext = textOf d, isStreaming = None\<rparr>],
                     isProcessing := False\<rparr>,
                   []))"
  using assms by (auto simp: onmessage_def chunkUpdate_def finalUpdate_def Let_def)

theorem agent_events_update_chat_witness:
  "messages state0 \<noteq> []
   \<and> onmessage 7 \<lparr>dtype = ''agent_chunk'', devent = None, dtext = Some ''Hel''\<rparr> state0
       = Inr (state0\<lparr>messages :=
                [msg_welcome, \<lparr>mid = 7, mrole = Agent, mtext = ''Hel'', isStreaming = Some True\<rparr>]\<rparr>, [])
   \<and> onmessage 8 \<lparr>dtype = ''agent_chunk'', devent = None, dtext = Some ''lo''\<rparr>
        (state0\<lparr>messages :=
                [msg_welcome, \<lparr>mid = 7, mrole = Agent, mtext = ''Hel'', isStreaming = Some True\<rparr>]\<rparr>)
       = Inr (state0\<lparr>messages :=
                [msg_welcome, \<lparr>mid = 7, mrole = Agent, mtext = ''Hello'', isStreaming = Some True\<rparr>]\<rparr>, [])
   \<and> onmessage 9 \<lparr>dtype = ''agent_error'', devent = None, dtext = None\<rparr> state0
       = Inr (state0\<lparr>messages :=
                [msg_welcome, \<lparr>mid = 9, mrole = Agent, mtext = [], isStreaming = None\<rparr>],
                isProcessing := False\<rparr>, [])"
proof -
  let ?s1 = "state0\<lparr>messages :=
                [msg_welcome, \<lparr>mid = 7, mrole = Agent, mtext = ''Hel'', isStreaming = Some True\<rparr>]\<rparr>"
  have h0: "messages state0 \<noteq> []" by (simp add: state0_def)
  have h1: "messages ?s1 \<noteq> []" by simp
  have m0: "messages state0 = [msg_welcome]" by (simp add: state0_def)
  have w: "mrole msg_welcome = Agent" "isStreaming msg_welcome = None"
    by (simp_all add: msg_welcome_def)
  from agent_events_update_chat
         [OF h0, of "\<lparr>dtype = ''agent_chunk'', devent = None, dtext = Some ''Hel''\<rparr>" 7]
       agent_events_update_chat
         [OF h1, of "\<lparr>dtype = ''agent_chunk'', devent = None, dtext = Some ''lo''\<rparr>" 8]
       agent_events_update_chat
         [OF h0, of "\<lparr>dtype = ''agent_error'', devent = None, dtext = None\<rparr>" 9]
       h0
  show ?thesis by (simp add: m0 w textOf_def)
qed

section \<open>Search filter\<close>

text \<open>\<open>includes_str\<close> is the substring test, and every string includes the empty one.\<close>

lemma includes_str_Nil: "includes_str s [] = True"
  by (cases s) simp_all

lemma take_prefix: "(take (length t) s = t) = (\<exists>b. s = t @ b)"
proof
  assume "take (length t) s = t"
  then have "s = t @ drop (length t) s" by (metis append_take_drop_id)
  then show "\<exists>b. s = t @ b" ..
next
  assume "\<exists>b. s = t @ b"
  then show "take (length t) s = t" by auto
qed

lemma includes_str_iff: "includes_str s t = (\<exists>a b. s = a @ t @ b)"
proof (induction s)
  case Nil
  show ?case by auto
next
  case (Cons c s)
  show ?case
  proof
    assume "includes_str (c # s) t"
    then consider "take (length t) (c # s) = t" | "includes_str s t" by auto
    then show "\<exists>a b. c # s = a @ t @ b"
    proof cases
      case 1
      then obtain b where "c # s = t @ b" unfolding take_prefix ..
      then have "c # s = [] @ t @ b" by simp
      then show ?thesis by blast
    next
      case 2
      with Cons obtain a b where "s = a @ t @ b" by auto
      then have "c # s = (c # a) @ t @ b" by simp
      then show ?thesis by blast
    qed
  next
    assume "\<exists>a b. c # s = a @ t @ b"
    then obtain a b where ab: "c # s = a @ t @ b" by auto
    show "includes_str (c # s) t"
    proof (cases a)
      case Nil
      with ab have "take (length t) (c # s) = t" unfolding take_prefix by auto
      then show ?thesis by simp
    next
      case (Cons x a')
      with ab have "s = a' @ t @ b" by simp
      with Cons.IH have "includes_str s t" by blast
      then show ?thesis by simp
    qed
  qed
qed

lemma not_Folder: "(ty \<noteq> Folder) = (ty = File)"
  by (cases ty) simp_all

lemma filterNodes_empty_term: "filterNodes lower t [] = expandAll t"
  by (induction lower t "[] :: 'a list" rule: filterNodes.induct)
     (auto simp: includes_str_Nil toLowerCase_def not_Folder split: option.splits ntype.splits)

lemma expandAll_attrs:
  "map (\<lambda>n. (nid n, name n, ntype n, content n)) (nodes_of (expandAll t))
   = map (\<lambda>n. (nid n, name n, ntype n, content n)) (nodes_of t)"
  by (induction t rule: expandAll.induct) (auto split: option.splits ntype.splits)

lemma expandAll_id:
  "\<forall>n \<in> set (nodes_of t). ntype n = Folder \<longrightarrow> isOpen n = Some True \<and> children n \<noteq> None \<Longrightarrow>
   expandAll t = t"
  by (induction t rule: expandAll.induct) (auto split: option.splits ntype.splits)



lemma tree_ok_leaves: "tree_ok t \<Longrightarrow> files_are_leaves t"
  unfolding tree_ok_def files_are_leaves_def
  by (induction "nodes_of t" arbitrary: t)
     (auto simp: list_all_iff node_ok_def file_is_leaf_def split: ntype.splits)






text \<open>
  The same outside ASCII, with code units as numbers: a file whose name is the capital
  E with acute accent (U+00C9, 201) followed by \<^verbatim>\<open>.js\<close> is found under the term that
  is the small e with acute accent (U+00E9, 233), by every case mapping that lowers the
  one to the other, as the built-in does.
\<close>

lemma filterNodes_beyond_ascii:
  assumes "lower [201, 46, 106, 115] = [233, 46, 106, 115 :: nat]"
    and "lower [233] = [233]"
  shows "filterNodes lower [Node [47, 201, 46, 106, 115] [201, 46, 106, 115] File None None None] [233]
           = [Node [47, 201, 46, 106, 115] [201, 46, 106, 115] File None None None]"
  using assms by (simp add: toLowerCase_def)

text \<open>
  C5 (empty term), as the code has it. A direct call with the empty term keeps every
  node, in the same order and nesting, with its id, name, type and content, but it
  returns every folder expanded (isOpen true) and with a children sequence (empty when
  the folder had none); files are returned as they are. The tree comes back unchanged
  when every folder of it is already expanded and has a children sequence.
\<close>

theorem filterNodes_empty_term_expands:
  "filterNodes lower t [] = expandAll t
   \<and> map (\<lambda>n. (nid n, name n, ntype n, content n)) (nodes_of (filterNodes lower t []))
     = map (\<lambda>n. (nid n, name n, ntype n, content n)) (nodes_of t)
   \<and> ((\<forall>n \<in> set (nodes_of t). ntype n = Folder \<longrightarrow> isOpen n = Some True \<and> children n \<noteq> None)
        \<longrightarrow> filterNodes lower t [] = t)"
  by (simp add: filterNodes_empty_term expandAll_attrs expandAll_id)

theorem filterNodes_empty_term_expands_witness:
  "filterNodes asciiLower [Node ''/a'' ''a'' Folder (Some [file_x None]) None (Some True)] []
     = [Node ''/a'' ''a'' Folder (Some [file_x None]) None (Some True)]"
proof -
  have h: "\<forall>n \<in> set (nodes_of [Node ''/a'' ''a'' Folder (Some [file_x None]) None (Some True)]).
        ntype n = Folder \<longrightarrow> isOpen n = Some True \<and> children n \<noteq> None"
    by (simp add: file_x_def)
  from filterNodes_empty_term_expands
         [of asciiLower "[Node ''/a'' ''a'' Folder (Some [file_x None]) None (Some True)]"] h
  show ?thesis by blast
qed

text \<open>
  C5 as stated fails: a folder that is collapsed, or that has no isOpen flag or no
  children field, is not returned as it was.
\<close>

theorem filterNodes_empty_term_changes_folders:
  "filterNodes asciiLower [folder_a [file_x None]] []
     = [Node ''/a'' ''a'' Folder (Some [file_x None]) None (Some True)]
   \<and> filterNodes asciiLower [folder_a [file_x None]] [] \<noteq> [folder_a [file_x None]]
   \<and> filterNodes asciiLower [Node ''/b'' ''b'' Folder None None None] []
     = [Node ''/b'' ''b'' Folder (Some []) None (Some True)]
   \<and> filterNodes asciiLower [Node ''/b'' ''b'' Folder None None None] []
     \<noteq> [Node ''/b'' ''b'' Folder None None None]"
  by (simp add: folder_a_def file_x_def toLowerCase_def includes_str_Nil)

end
